theory Spec2Isabelle
  imports Complex_Main "HOL-Library.Word"
begin

section \<open>crimson::net::ProtocolV2: the data of the header\<close>

text \<open>
  The embedding follows \<^verbatim>\<open>src/crimson/net/ProtocolV2.h\<close>. The header defines the
  state enumeration, the name table, the members of the engine with their default member
  initialisers, \<^verbatim>\<open>wait_exit_io\<close>, \<^verbatim>\<open>gated_execute\<close> and the nested class
  \<^verbatim>\<open>Timer\<close>. Every other member function is declared there and defined elsewhere.
\<close>

subsection \<open>state_t and get_state_name\<close>

datatype state_t =
    NONE
  | ACCEPTING
  | SERVER_WAIT
  | ESTABLISHING
  | CONNECTING
  | READY
  | STANDBY
  | WAIT
  | REPLACING
  | CLOSING

text \<open>
  \<^verbatim>\<open>static_cast<int>(state)\<close>: the enumeration starts at \<^verbatim>\<open>NONE = 0\<close> and every
  later enumerator is one more than the one before it.
\<close>

fun state_to_int :: "state_t \<Rightarrow> int" where
  "state_to_int NONE = 0"
| "state_to_int ACCEPTING = 1"
| "state_to_int SERVER_WAIT = 2"
| "state_to_int ESTABLISHING = 3"
| "state_to_int CONNECTING = 4"
| "state_to_int READY = 5"
| "state_to_int STANDBY = 6"
| "state_to_int WAIT = 7"
| "state_to_int REPLACING = 8"
| "state_to_int CLOSING = 9"

definition statenames :: "string list" where
  "statenames =
     [''NONE'',
      ''ACCEPTING'',
      ''SERVER_WAIT'',
      ''ESTABLISHING'',
      ''CONNECTING'',
      ''READY'',
      ''STANDBY'',
      ''WAIT'',
      ''REPLACING'',
      ''CLOSING'']"

text \<open>
  \<^verbatim>\<open>return statenames[static_cast<int>(state)];\<close> A read outside the array is
  undefined behaviour in C++; the model returns \<open>None\<close> there, so that a result
  \<open>Some n\<close> says that the index was inside the table.
\<close>

definition get_state_name :: "state_t \<Rightarrow> string option" where
  "get_state_name st =
     (let i = state_to_int st
      in if 0 \<le> i \<and> i < int (length statenames) then Some (statenames ! nat i) else None)"

subsection \<open>Futures and promises\<close>

text \<open>
  Of a \<^verbatim>\<open>seastar::future<>\<close> the header only asks whether it is available. A future is
  either made ready (\<^verbatim>\<open>seastar::now()\<close>) or belongs to a promise, and then it is
  available once the promise has been given its value. Promises are numbered in the
  order of their construction; the store keeps the next number and the promises that
  have their value.
\<close>

datatype future = Ready_future | Pending_future nat

record promises =
  next_promise :: nat
  fulfilled :: "nat list"

definition now :: future where
  "now = Ready_future"

definition available :: "promises \<Rightarrow> future \<Rightarrow> bool" where
  "available ps f =
     (case f of
        Ready_future \<Rightarrow> True
      | Pending_future n \<Rightarrow> n \<in> set (fulfilled ps))"

text \<open>\<^verbatim>\<open>seastar::promise<> pr;\<close>\<close>

definition new_promise :: "promises \<Rightarrow> nat \<times> promises" where
  "new_promise ps = (next_promise ps, ps\<lparr>next_promise := Suc (next_promise ps)\<rparr>)"

text \<open>\<^verbatim>\<open>pr.get_future()\<close> and, for a shared promise, \<^verbatim>\<open>get_shared_future()\<close>\<close>

definition get_future :: "nat \<Rightarrow> future" where
  "get_future pr = Pending_future pr"

definition get_shared_future :: "nat \<Rightarrow> future" where
  "get_shared_future pr = Pending_future pr"

text \<open>\<^verbatim>\<open>pr.set_value()\<close>\<close>

definition set_value :: "nat \<Rightarrow> promises \<Rightarrow> promises" where
  "set_value pr ps = ps\<lparr>fulfilled := pr # fulfilled ps\<rparr>"

subsection \<open>Timer\<close>

text \<open>
  \<^verbatim>\<open>double last_dur_ = 0.0; std::optional<seastar::abort_source> as;\<close> The member
  \<^verbatim>\<open>last_dur_\<close> is \<open>last_dur_mem\<close> here (a name cannot end in an underscore). The
  duration is only stored and read back by the functions of the header, never computed
  with, so it is modelled as a real number. An abort source records whether an abort was
  requested.
\<close>

record abort_source =
  abort_requested :: bool

definition request_abort :: "abort_source \<Rightarrow> abort_source" where
  "request_abort a = a\<lparr>abort_requested := True\<rparr>"

record Timer =
  last_dur_mem :: real
  as :: "abort_source option"

definition new_Timer :: Timer where
  "new_Timer = \<lparr>last_dur_mem = 0, as = None\<rparr>"

definition last_dur :: "Timer \<Rightarrow> real" where
  "last_dur t = last_dur_mem t"

text \<open>
  \<^verbatim>\<open>cancel\<close> sets \<open>last_dur_mem\<close> to zero and, when an abort source is engaged, requests
  the abort on it and disengages the optional. The function returns the timer together
  with the abort source it signalled, in the state it had when it was released, so that
  the request is visible after the optional is empty.
\<close>

definition cancel :: "Timer \<Rightarrow> Timer \<times> abort_source option" where
  "cancel t =
     (let t1 = t\<lparr>last_dur_mem := 0\<rparr>
      in case as t1 of
           Some a \<Rightarrow> (t1\<lparr>as := None\<rparr>, Some (request_abort a))
         | None \<Rightarrow> (t1, None))"

subsection \<open>The engine\<close>

text \<open>
  The members of \<^verbatim>\<open>ProtocolV2\<close> that carry values. The references \<^verbatim>\<open>conn\<close>,
  \<^verbatim>\<open>messenger\<close> and \<^verbatim>\<open>io_handler\<close> are objects of classes that are not part of
  the header. The frame assembler and the authentication context are owned through
  pointers; the model keeps the number of the object each pointer owns, or \<open>None\<close> for
  a null pointer. \<open>exit_io\<close> holds the number of its shared promise. Of the gate the
  model keeps what has been dispatched in it: the name given and the future awaited.
  \<^verbatim>\<open>closed_clean_fut\<close> is default-constructed, which is a future that is not valid
  (``become valid only after closed == true''); that is \<open>None\<close>.
\<close>

record ProtocolV2 =
  has_socket :: bool
  is_socket_valid :: bool
  frame_assembler :: "nat option"
  exit_io :: "nat option"
  auth_meta :: "nat option"
  gate :: "(string \<times> future) list"
  closed :: bool
  closed_clean_fut :: "future option"
  state :: state_t
  peer_supported_features :: "64 word"
  client_cookie :: "64 word"
  server_cookie :: "64 word"
  global_seq :: "64 word"
  peer_global_seq :: "64 word"
  connect_seq :: "64 word"
  execution_done :: future
  protocol_timer :: Timer

text \<open>
  A new engine has every member at its default member initialiser. The two owning
  pointers have none in the header, so the constructor's values for them are parameters.
\<close>

definition new_ProtocolV2 :: "nat option \<Rightarrow> nat option \<Rightarrow> ProtocolV2" where
  "new_ProtocolV2 fa am =
     \<lparr>has_socket = False,
      is_socket_valid = False,
      frame_assembler = fa,
      exit_io = None,
      auth_meta = am,
      gate = [],
      closed = False,
      closed_clean_fut = None,
      state = NONE,
      peer_supported_features = 0,
      client_cookie = 0,
      server_cookie = 0,
      global_seq = 0,
      peer_global_seq = 0,
      connect_seq = 0,
      execution_done = now,
      protocol_timer = new_Timer\<rparr>"

definition wait_exit_io :: "ProtocolV2 \<Rightarrow> future" where
  "wait_exit_io p =
     (case exit_io p of
        Some pr \<Rightarrow> get_shared_future pr
      | None \<Rightarrow> now)"

subsection \<open>gated_execute\<close>

text \<open>
  Modelled from the spec: \<^verbatim>\<open>Gated::dispatch_in_background\<close>, of the class
  \<^verbatim>\<open>crimson::common::Gated\<close>, which is missing. Section 2: the gate ``tracks
  outstanding background work for orderly shutdown''. The work dispatched is known to the
  gate by its name and by the future it ends with.
\<close>

definition dispatch_in_background :: "string \<Rightarrow> future \<Rightarrow> ProtocolV2 \<Rightarrow> ProtocolV2" where
  "dispatch_in_background what fut p = p\<lparr>gate := gate p @ [(what, fut)]\<rparr>"

text \<open>
  The third argument of \<^verbatim>\<open>gated_execute\<close> is the routine \<^verbatim>\<open>func\<close>, which the call
  invokes. Of what a routine does before it returns, the model keeps what bears on the
  gate: the calls of \<^verbatim>\<open>gated_execute\<close> it makes itself, each with a routine of its
  own, and how it ends. It returns a future that is ready, or it throws, which
  \<^verbatim>\<open>futurize_invoke\<close> turns into a failed future, available as well; or it returns a
  future that is not available yet.
\<close>

datatype func_end = Returns_ready | Throws | Stays_pending

datatype func = Func "(string \<times> func) list" func_end

text \<open>
  \<^verbatim>\<open>gated_execute\<close> up to the invocation of \<^verbatim>\<open>func\<close>: when \<^verbatim>\<open>execution_done\<close>
  is not available it is moved into a lambda dispatched in the gate as
  \<^verbatim>\<open>"gated_execute_abandon"\<close>; a promise is constructed and its future becomes
  \<^verbatim>\<open>execution_done\<close>.
\<close>

definition gated_execute_enter :: "ProtocolV2 \<times> promises \<Rightarrow> ProtocolV2 \<times> promises" where
  "gated_execute_enter w =
     (let p = fst w;
          ps = snd w;
          p1 = (if \<not> available ps (execution_done p)
                then dispatch_in_background ''gated_execute_abandon'' (execution_done p) p
                else p);
          pr = fst (new_promise ps);
          ps1 = snd (new_promise ps);
          p2 = p1\<lparr>execution_done := get_future pr\<rparr>
      in (p2, ps1))"

text \<open>
  \<^verbatim>\<open>gated_execute\<close>, as in the header. The body of the outer lambda has no suspension
  point, so a call is one step on the engine and the promise store. After the part above
  \<^verbatim>\<open>func\<close> is invoked, and what it calls runs inside the call. The lambda returns the
  future of \<^verbatim>\<open>func\<close> with the setting of the promise as its \<^verbatim>\<open>finally\<close>: when the
  future of \<^verbatim>\<open>func\<close> is available at that point the promise is set within the call,
  otherwise when \<^verbatim>\<open>func\<close> ends, which is the event \<open>Finished\<close> below. The outer
  dispatch awaits the future the lambda returns, which is available exactly when the
  promise has its value.
\<close>

definition gated_execute_return ::
  "string \<Rightarrow> func_end \<Rightarrow> nat \<Rightarrow> ProtocolV2 \<times> promises \<Rightarrow> ProtocolV2 \<times> promises" where
  "gated_execute_return what e pr w =
     (let w1 = (if e = Stays_pending then w else (fst w, set_value pr (snd w)))
      in (dispatch_in_background what (get_future pr) (fst w1), snd w1))"

fun gated_execute :: "string \<Rightarrow> func \<Rightarrow> ProtocolV2 \<times> promises \<Rightarrow> ProtocolV2 \<times> promises"
  and calls :: "(string \<times> func) list \<Rightarrow> ProtocolV2 \<times> promises \<Rightarrow> ProtocolV2 \<times> promises" where
  "gated_execute what (Func cs e) w =
     gated_execute_return what e (fst (new_promise (snd w))) (calls cs (gated_execute_enter w))"
| "calls [] w = w"
| "calls (c # cs) w = calls cs (gated_execute (fst c) (snd c) w)"

text \<open>
  What happens to an engine's executions: a call of \<^verbatim>\<open>gated_execute\<close>, or the end of
  an execution that was given promise \<open>pr\<close> and had not ended within its call, at which
  its \<^verbatim>\<open>finally\<close> sets the promise. Only a promise that has been constructed can be
  set.
\<close>

datatype event = Gated_execute string func | Finished nat

fun step :: "event \<Rightarrow> ProtocolV2 \<times> promises \<Rightarrow> ProtocolV2 \<times> promises" where
  "step (Gated_execute what f) w = gated_execute what f w"
| "step (Finished pr) w =
     (if pr < next_promise (snd w) then (fst w, set_value pr (snd w)) else w)"

fun run_events :: "event list \<Rightarrow> ProtocolV2 \<times> promises \<Rightarrow> ProtocolV2 \<times> promises" where
  "run_events [] w = w"
| "run_events (e # es) w = run_events es (step e w)"

definition no_promises :: promises where
  "no_promises = \<lparr>next_promise = 0, fulfilled = []\<rparr>"

text \<open>
  The executions of an engine at a moment: only constructed promises have a value; the
  future in \<^verbatim>\<open>execution_done\<close> is ready or belongs to the promise constructed last;
  and every promise without its value is that of \<^verbatim>\<open>execution_done\<close> or is awaited by
  the gate as an abandoned one.
\<close>

definition single_driver :: "ProtocolV2 \<times> promises \<Rightarrow> bool" where
  "single_driver w =
     ((\<forall>n \<in> set (fulfilled (snd w)). n < next_promise (snd w))
      \<and> (execution_done (fst w) = Ready_future
         \<or> (0 < next_promise (snd w)
            \<and> execution_done (fst w) = Pending_future (next_promise (snd w) - 1)))
      \<and> (\<forall>n \<in> set [0..<next_promise (snd w)].
            n \<in> set (fulfilled (snd w))
            \<or> execution_done (fst w) = Pending_future n
            \<or> (''gated_execute_abandon'', Pending_future n) \<in> set (gate (fst w))))"

text \<open>
  One moment is later than another: promises have been constructed and none forgotten,
  the gate awaits all it awaited, and the promises that have got their value since are
  among those constructed since.
\<close>

definition later :: "ProtocolV2 \<times> promises \<Rightarrow> ProtocolV2 \<times> promises \<Rightarrow> bool" where
  "later w w' =
     (next_promise (snd w) \<le> next_promise (snd w')
      \<and> set (gate (fst w)) \<subseteq> set (gate (fst w'))
      \<and> set (fulfilled (snd w)) \<subseteq> set (fulfilled (snd w'))
      \<and> (\<forall>n \<in> set (fulfilled (snd w')).
            n \<in> set (fulfilled (snd w)) \<or> next_promise (snd w) \<le> n))"

section \<open>Operations whose bodies are outside the header\<close>

text \<open>
  \<^verbatim>\<open>do_close\<close>, \<^verbatim>\<open>close_clean_yielded\<close>, \<^verbatim>\<open>server_reconnect\<close> and
  \<^verbatim>\<open>send_retry\<close> are declared in the header and defined in a translation unit that
  is not among the sources. Each definition
  of this section is written from the specification and says so, with the sentences it
  follows; where the specification leaves a choice open, the choice is a parameter of the
  definition.
\<close>

subsection \<open>Closing\<close>

text \<open>
  Modelled from the spec: the body of \<^verbatim>\<open>do_close\<close> is missing. Section 4.1:
  ``calling close on an already-CLOSING engine is a no-op''; section 4.6:
  ``\<^verbatim>\<open>do_close\<close> is reentrant and idempotent: it may be called concurrently from
  multiple fault paths and must converge to a single CLOSING outcome, releasing the Frame
  Assembler, cancelling the timer, and waking any waiters on exit''. By section 5 the
  release of the frame assembler comes after a wait for the gate, ``this wait itself
  being a suspension point'', so it is not part of the call: the call marks the engine
  closed, enters \<open>CLOSING\<close>, cancels the timer, wakes the waiters by setting the
  promise of \<^verbatim>\<open>exit_io\<close>, and makes \<^verbatim>\<open>closed_clean_fut\<close> valid, as the future of a
  promise that is set when the release is done. The callback \<^verbatim>\<open>f_accept_new\<close> and
  the dispatch of the reset event concern the messenger and the I/O handler and are left
  out.
\<close>

definition do_close :: "bool \<Rightarrow> ProtocolV2 \<times> promises \<Rightarrow> ProtocolV2 \<times> promises" where
  "do_close is_dispatch_reset w =
     (if state (fst w) = CLOSING then w
      else
        (let ps1 = (case exit_io (fst w) of Some pr \<Rightarrow> set_value pr (snd w) | None \<Rightarrow> snd w);
             pr = fst (new_promise ps1);
             ps2 = snd (new_promise ps1)
         in ((fst w)\<lparr>closed := True,
                      state := CLOSING,
                      protocol_timer := fst (cancel (protocol_timer (fst w))),
                      closed_clean_fut := Some (get_shared_future pr)\<rparr>,
             ps2)))"

text \<open>
  Modelled from the spec: the gate has no outstanding work when every future it awaits
  is available (section 5: ``wait for any outstanding background-dispatched work (gate)
  to complete'').
\<close>

definition gate_drained :: "ProtocolV2 \<times> promises \<Rightarrow> bool" where
  "gate_drained w = list_all (\<lambda>x. available (snd w) (snd x)) (gate (fst w))"

text \<open>The frame assemblers torn down when the one behind a pointer is: it, if there is one.\<close>

definition torn_down :: "nat option \<Rightarrow> nat list" where
  "torn_down fa = (case fa of Some h \<Rightarrow> [h] | None \<Rightarrow> [])"

text \<open>
  Modelled from the spec: the rest of closing, which the header names by
  \<^verbatim>\<open>closed_clean_fut\<close> and \<^verbatim>\<open>close_clean_yielded\<close> and whose body is missing.
  Section 5: ``closing an engine must cancel its timer and wait for any outstanding
  background-dispatched work (gate) to complete before fully releasing the Frame
  Assembler''. The function is what happens when that wait is looked at: nothing while
  the engine is not closed, while the gate still has outstanding work, or once the
  release is done; else the frame assembler is torn down and released and the promise of
  \<^verbatim>\<open>closed_clean_fut\<close> is set. The second component collects the frame assemblers
  torn down.
\<close>

definition close_clean ::
  "(ProtocolV2 \<times> promises) \<times> nat list \<Rightarrow> (ProtocolV2 \<times> promises) \<times> nat list" where
  "close_clean x =
     (case closed_clean_fut (fst (fst x)) of
        None \<Rightarrow> x
      | Some Ready_future \<Rightarrow> x
      | Some (Pending_future pr) \<Rightarrow>
          if pr \<in> set (fulfilled (snd (fst x))) \<or> \<not> gate_drained (fst x) then x
          else (((fst (fst x))\<lparr>frame_assembler := None\<rparr>, set_value pr (snd (fst x))),
                snd x @ (torn_down (frame_assembler (fst (fst x))))))"

text \<open>
  Modelled from the spec: what happens around a closing engine, in any order and any
  number of times (section 4.6: \<^verbatim>\<open>do_close\<close> ``may be called concurrently from
  multiple fault paths''): a call of \<^verbatim>\<open>do_close\<close>, the end of a piece of work the
  gate awaits, and the wait of the closing being looked at.
\<close>

datatype closing_event = Do_close bool | Work_done nat | Close_clean

fun closing_step ::
  "closing_event \<Rightarrow> (ProtocolV2 \<times> promises) \<times> nat list \<Rightarrow> (ProtocolV2 \<times> promises) \<times> nat list" where
  "closing_step (Do_close r) x = (do_close r (fst x), snd x)"
| "closing_step (Work_done n) x =
     (if Pending_future n \<in> set (map snd (gate (fst (fst x))))
      then ((fst (fst x), set_value n (snd (fst x))), snd x)
      else x)"
| "closing_step Close_clean x = close_clean x"

fun run_closing ::
  "closing_event list \<Rightarrow> (ProtocolV2 \<times> promises) \<times> nat list
     \<Rightarrow> (ProtocolV2 \<times> promises) \<times> nat list" where
  "run_closing [] x = x"
| "run_closing (e # es) x = run_closing es (closing_step e x)"

text \<open>
  What holds of an engine that was constructed owning \<open>fa\<close> and of the frame
  assemblers torn down so far. The promises in use have been constructed. The engine is
  closed exactly when it is in \<open>CLOSING\<close>, and exactly then \<^verbatim>\<open>closed_clean_fut\<close> is
  valid; its promise is not one the gate awaits. As long as that future is not available
  the engine owns its frame assembler and nothing has been torn down; once it is
  available the gate has no outstanding work, the frame assembler has been torn down once
  and the engine owns none.
\<close>

definition closing_inv :: "nat option \<Rightarrow> (ProtocolV2 \<times> promises) \<times> nat list \<Rightarrow> bool" where
  "closing_inv fa x =
     (let p = fst (fst x); ps = snd (fst x) in
        list_all (\<lambda>n. n < next_promise ps) (fulfilled ps)
        \<and> list_all (\<lambda>e. case snd e of Ready_future \<Rightarrow> True | Pending_future k \<Rightarrow> k < next_promise ps)
             (gate p)
        \<and> (case exit_io p of None \<Rightarrow> True | Some k \<Rightarrow> k < next_promise ps)
        \<and> closed p = (state p = CLOSING)
        \<and> (case closed_clean_fut p of
             None \<Rightarrow> state p \<noteq> CLOSING \<and> snd x = [] \<and> frame_assembler p = fa
           | Some Ready_future \<Rightarrow> False
           | Some (Pending_future pr) \<Rightarrow>
               state p = CLOSING
               \<and> pr < next_promise ps
               \<and> Pending_future pr \<notin> set (map snd (gate p))
               \<and> (if pr \<in> set (fulfilled ps)
                   then snd x = torn_down fa \<and> frame_assembler p = None \<and> gate_drained (fst x)
                   else snd x = [] \<and> frame_assembler p = fa)))"

subsection \<open>Reconnection, passive side\<close>

text \<open>
  Modelled from the spec: the reconnect frame, of which section 4.4 names the session
  identity and the connect sequence (``reconnection using the existing
  \<^verbatim>\<open>(client_cookie, server_cookie)\<close> and incrementing \<^verbatim>\<open>connect_seq\<close>''), and the
  replies the header has a sender for (\<^verbatim>\<open>send_retry\<close>, \<^verbatim>\<open>send_retry_global\<close>,
  \<^verbatim>\<open>send_reset\<close>, \<^verbatim>\<open>send_wait\<close>) beside the acceptance.
\<close>

record reconnect_frame =
  rc_client_cookie :: "64 word"
  rc_server_cookie :: "64 word"
  rc_connect_seq :: "64 word"

datatype reconnect_reply =
    Reconnect_ok
  | Retry "64 word"
  | Retry_global "64 word"
  | Reset bool
  | Wait_reply

definition cookies_match :: "reconnect_frame \<Rightarrow> ProtocolV2 \<Rightarrow> bool" where
  "cookies_match r e =
     (client_cookie e = rc_client_cookie r \<and> server_cookie e = rc_server_cookie r)"

text \<open>
  Modelled from the spec: the comparison of \<^verbatim>\<open>server_reconnect\<close>, whose body is
  missing. Section 4.4: ``\<^verbatim>\<open>incoming == stored + 1\<close> \<rightarrow> accept, bump stored
  \<^verbatim>\<open>connect_seq\<close>''; ``\<^verbatim>\<open>incoming <= stored\<close> \<rightarrow> reply RETRY with the stored
  \<^verbatim>\<open>connect_seq\<close>''. The sum \<^verbatim>\<open>stored + 1\<close> is the number, without wrap-around.
  The specification says nothing of an incoming value above \<^verbatim>\<open>stored + 1\<close>; what
  happens then is the parameter \<open>beyond\<close>.
\<close>

definition reconnect_existing ::
  "(reconnect_frame \<Rightarrow> ProtocolV2 \<Rightarrow> reconnect_reply \<times> ProtocolV2) \<Rightarrow> reconnect_frame
     \<Rightarrow> ProtocolV2 \<Rightarrow> reconnect_reply \<times> ProtocolV2" where
  "reconnect_existing beyond r e =
     (if unat (rc_connect_seq r) = unat (connect_seq e) + 1
      then (Reconnect_ok, e\<lparr>connect_seq := connect_seq e + 1\<rparr>)
      else if rc_connect_seq r \<le> connect_seq e
      then (Retry (connect_seq e), e)
      else beyond r e)"

text \<open>
  Modelled from the spec: \<^verbatim>\<open>server_reconnect\<close>, whose body is missing, over the
  engines the passive side holds. Section 4.4: ``Cookies unknown (server restarted or
  session evicted) \<rightarrow> reply RESET''. Whether the reset sent is a full one is the
  parameter \<open>full\<close>.
\<close>

fun server_reconnect ::
  "(reconnect_frame \<Rightarrow> ProtocolV2 \<Rightarrow> reconnect_reply \<times> ProtocolV2) \<Rightarrow> bool
     \<Rightarrow> ProtocolV2 list \<Rightarrow> reconnect_frame \<Rightarrow> reconnect_reply \<times> ProtocolV2 list" where
  "server_reconnect beyond full [] r = (Reset full, [])"
| "server_reconnect beyond full (e # es) r =
     (if cookies_match r e
      then (fst (reconnect_existing beyond r e), snd (reconnect_existing beyond r e) # es)
      else (fst (server_reconnect beyond full es r),
            e # snd (server_reconnect beyond full es r)))"

section \<open>Properties of the header's code\<close>

lemma state_to_int_range: "0 \<le> state_to_int st \<and> state_to_int st < 10"
  by (cases st) simp_all

lemma length_statenames: "length statenames = 10"
  by (simp add: statenames_def)

text \<open>
  C9. For each of the ten values of \<open>state_t\<close> the index that \<open>get_state_name\<close>
  computes lies inside the name table, the table has ten entries, the values are numbered
  from 0 in the order of the declaration, and the name returned is the spelling of the
  enumerator.
\<close>

theorem get_state_name_spelling:
  "(0 \<le> state_to_int st \<and> state_to_int st < int (length statenames))
   \<and> length statenames = 10
   \<and> map state_to_int
       [NONE, ACCEPTING, SERVER_WAIT, ESTABLISHING, CONNECTING,
        READY, STANDBY, WAIT, REPLACING, CLOSING] = [0, 1, 2, 3, 4, 5, 6, 7, 8, 9]
   \<and> get_state_name NONE = Some ''NONE''
   \<and> get_state_name ACCEPTING = Some ''ACCEPTING''
   \<and> get_state_name SERVER_WAIT = Some ''SERVER_WAIT''
   \<and> get_state_name ESTABLISHING = Some ''ESTABLISHING''
   \<and> get_state_name CONNECTING = Some ''CONNECTING''
   \<and> get_state_name READY = Some ''READY''
   \<and> get_state_name STANDBY = Some ''STANDBY''
   \<and> get_state_name WAIT = Some ''WAIT''
   \<and> get_state_name REPLACING = Some ''REPLACING''
   \<and> get_state_name CLOSING = Some ''CLOSING''"
proof -
  have bounds: "0 \<le> state_to_int st \<and> state_to_int st < int (length statenames)"
    using state_to_int_range [of st] by (simp add: length_statenames)
  have order: "map state_to_int
       [NONE, ACCEPTING, SERVER_WAIT, ESTABLISHING, CONNECTING,
        READY, STANDBY, WAIT, REPLACING, CLOSING] = [0, 1, 2, 3, 4, 5, 6, 7, 8, 9]"
    by simp
  have names:
    "get_state_name NONE = Some ''NONE''"
    "get_state_name ACCEPTING = Some ''ACCEPTING''"
    "get_state_name SERVER_WAIT = Some ''SERVER_WAIT''"
    "get_state_name ESTABLISHING = Some ''ESTABLISHING''"
    "get_state_name CONNECTING = Some ''CONNECTING''"
    "get_state_name READY = Some ''READY''"
    "get_state_name STANDBY = Some ''STANDBY''"
    "get_state_name WAIT = Some ''WAIT''"
    "get_state_name REPLACING = Some ''REPLACING''"
    "get_state_name CLOSING = Some ''CLOSING''"
    by (simp_all add: get_state_name_def statenames_def)
  from bounds length_statenames order names show ?thesis by blast
qed

text \<open>
  C8. After \<open>cancel\<close> the recorded last duration is zero and no abort source is left
  engaged; an abort source that was engaged before the call has had its abort requested,
  and nothing is signalled when there was none.
\<close>

theorem cancel_resets_timer:
  "last_dur (fst (cancel t)) = 0
   \<and> as (fst (cancel t)) = None
   \<and> snd (cancel t) = map_option (\<lambda>a. a\<lparr>abort_requested := True\<rparr>) (as t)"
  by (cases "as t") (simp_all add: cancel_def last_dur_def request_abort_def)

text \<open>
  C10. A new engine is in state \<open>NONE\<close>, its cookies, sequence numbers and peer features
  are 0, it is not closed, it has no socket and no valid socket, \<open>exit_io\<close> is unset and
  \<open>execution_done\<close> is resolved whatever the promises are; \<open>wait_exit_io\<close> on it
  returns a future that is ready at once.
\<close>

theorem new_ProtocolV2_defaults:
  "state (new_ProtocolV2 fa am) = NONE
   \<and> client_cookie (new_ProtocolV2 fa am) = 0
   \<and> server_cookie (new_ProtocolV2 fa am) = 0
   \<and> global_seq (new_ProtocolV2 fa am) = 0
   \<and> peer_global_seq (new_ProtocolV2 fa am) = 0
   \<and> connect_seq (new_ProtocolV2 fa am) = 0
   \<and> peer_supported_features (new_ProtocolV2 fa am) = 0
   \<and> closed (new_ProtocolV2 fa am) = False
   \<and> has_socket (new_ProtocolV2 fa am) = False
   \<and> is_socket_valid (new_ProtocolV2 fa am) = False
   \<and> exit_io (new_ProtocolV2 fa am) = None
   \<and> available ps (execution_done (new_ProtocolV2 fa am))
   \<and> wait_exit_io (new_ProtocolV2 fa am) = now
   \<and> available ps (wait_exit_io (new_ProtocolV2 fa am))"
  by (simp add: new_ProtocolV2_def wait_exit_io_def available_def now_def)

subsection \<open>The execution gate\<close>

lemma gate_enter:
  "gate (fst (gated_execute_enter w)) =
     gate (fst w)
     @ (if available (snd w) (execution_done (fst w)) then []
        else [(''gated_execute_abandon'', execution_done (fst w))])"
  by (simp add: gated_execute_enter_def dispatch_in_background_def Let_def)

lemma execution_done_enter:
  "execution_done (fst (gated_execute_enter w)) = Pending_future (next_promise (snd w))"
  by (simp add: gated_execute_enter_def dispatch_in_background_def new_promise_def get_future_def Let_def)

lemma promises_enter:
  "snd (gated_execute_enter w) = (snd w)\<lparr>next_promise := Suc (next_promise (snd w))\<rparr>"
  by (simp add: gated_execute_enter_def new_promise_def Let_def)

lemma gate_return:
  "gate (fst (gated_execute_return what e pr w)) = gate (fst w) @ [(what, Pending_future pr)]"
  by (simp add: gated_execute_return_def dispatch_in_background_def get_future_def Let_def)

lemma execution_done_return:
  "execution_done (fst (gated_execute_return what e pr w)) = execution_done (fst w)"
  by (simp add: gated_execute_return_def dispatch_in_background_def Let_def)

lemma promises_return:
  "snd (gated_execute_return what e pr w) =
     (if e = Stays_pending then snd w else set_value pr (snd w))"
  by (simp add: gated_execute_return_def Let_def)

lemma later_refl: "later w w"
  by (simp add: later_def)

lemma later_trans: "later a b \<Longrightarrow> later b c \<Longrightarrow> later a c"
  unfolding later_def by (meson le_trans subset_trans)

lemma single_driver_new: "single_driver (new_ProtocolV2 fa am, no_promises)"
  by (simp add: single_driver_def new_ProtocolV2_def no_promises_def now_def)

lemma later_enter: "later w (gated_execute_enter w)"
  by (auto simp: later_def promises_enter gate_enter)

lemma single_driver_enter:
  assumes "single_driver w"
  shows "single_driver (gated_execute_enter w)"
  unfolding single_driver_def
proof (intro conjI ballI)
  fix n assume "n \<in> set (fulfilled (snd (gated_execute_enter w)))"
  with assms show "n < next_promise (snd (gated_execute_enter w))"
    by (auto simp: promises_enter single_driver_def less_Suc_eq)
next
  show "execution_done (fst (gated_execute_enter w)) = Ready_future
     \<or> (0 < next_promise (snd (gated_execute_enter w))
        \<and> execution_done (fst (gated_execute_enter w))
            = Pending_future (next_promise (snd (gated_execute_enter w)) - 1))"
    by (simp add: promises_enter execution_done_enter)
next
  fix n assume n: "n \<in> set [0..<next_promise (snd (gated_execute_enter w))]"
  show "n \<in> set (fulfilled (snd (gated_execute_enter w)))
     \<or> execution_done (fst (gated_execute_enter w)) = Pending_future n
     \<or> (''gated_execute_abandon'', Pending_future n) \<in> set (gate (fst (gated_execute_enter w)))"
  proof (cases "n = next_promise (snd w)")
    case True
    then show ?thesis by (simp add: execution_done_enter)
  next
    case False
    with n have "n \<in> set [0..<next_promise (snd w)]"
      by (simp add: promises_enter)
    with assms have old: "n \<in> set (fulfilled (snd w))
       \<or> execution_done (fst w) = Pending_future n
       \<or> (''gated_execute_abandon'', Pending_future n) \<in> set (gate (fst w))"
      unfolding single_driver_def by blast
    then show ?thesis
      by (auto simp: promises_enter gate_enter available_def)
  qed
qed

lemma single_driver_return:
  "single_driver w \<Longrightarrow> pr < next_promise (snd w) \<Longrightarrow>
     single_driver (gated_execute_return what e pr w)"
  by (auto simp: single_driver_def gate_return execution_done_return promises_return set_value_def)

lemma later_return:
  "later v w \<Longrightarrow> next_promise (snd v) \<le> pr \<Longrightarrow> later v (gated_execute_return what e pr w)"
  by (auto simp: later_def gate_return promises_return set_value_def)

lemma call_keeps:
  "single_driver w \<Longrightarrow>
     single_driver (gated_execute what f w) \<and> later w (gated_execute what f w)"
  "single_driver w \<Longrightarrow> single_driver (calls cs w) \<and> later w (calls cs w)"
proof (induction what f w and cs w rule: gated_execute_calls.induct)
  case (1 what cs e w)
  let ?pr = "next_promise (snd w)"
  let ?w1 = "calls cs (gated_execute_enter w)"
  from "1.prems" have "single_driver (gated_execute_enter w)"
    by (rule single_driver_enter)
  with "1.IH" have w1: "single_driver ?w1" and l1: "later (gated_execute_enter w) ?w1"
    by simp_all
  from l1 have "?pr < next_promise (snd ?w1)"
    by (simp add: later_def promises_enter)
  with w1 have "single_driver (gated_execute_return what e ?pr ?w1)"
    by (rule single_driver_return)
  moreover from later_trans [OF later_enter l1]
  have "later w (gated_execute_return what e ?pr ?w1)"
    by (rule later_return) simp
  ultimately show ?case
    by (simp add: new_promise_def)
next
  case (2 w)
  then show ?case by (simp add: later_refl)
next
  case (3 c cs w)
  from "3.prems" "3.IH"(1) have a: "single_driver (gated_execute (fst c) (snd c) w)"
    and b: "later w (gated_execute (fst c) (snd c) w)"
    by simp_all
  from a "3.IH"(2) have "single_driver (calls (c # cs) w)"
    and "later (gated_execute (fst c) (snd c) w) (calls (c # cs) w)"
    by simp_all
  with b show ?case
    by (blast intro: later_trans)
qed

lemma single_driver_step:
  "single_driver w \<Longrightarrow> single_driver (step e w)"
proof (cases e)
  case (Gated_execute what f)
  assume "single_driver w"
  with Gated_execute show ?thesis by (simp add: call_keeps)
next
  case (Finished pr)
  assume "single_driver w"
  with Finished show ?thesis
    by (auto simp: single_driver_def set_value_def)
qed

lemma single_driver_run_events:
  "single_driver w \<Longrightarrow> single_driver (run_events es w)"
  by (induction es arbitrary: w) (simp_all add: single_driver_step)


lemma gate_grows:
  "set (gate (fst w)) \<subseteq> set (gate (fst (gated_execute what f w)))"
  "set (gate (fst w)) \<subseteq> set (gate (fst (calls cs w)))"
proof (induction what f w and cs w rule: gated_execute_calls.induct)
  case (1 what cs e w)
  have "set (gate (fst w)) \<subseteq> set (gate (fst (gated_execute_enter w)))"
    by (auto simp: gate_enter)
  with "1.IH" show ?case
    by (auto simp: gate_return)
next
  case (2 w)
  show ?case by simp
next
  case (3 c cs w)
  then show ?case by auto
qed

lemma dispatched_by_call:
  "(what, Pending_future (next_promise (snd w))) \<in> set (gate (fst (gated_execute what f w)))"
  by (cases f) (simp add: gate_return new_promise_def)

text \<open>
  C7. A call of \<open>gated_execute\<close> made while the future in \<open>execution_done\<close> is not
  available hands that future to the gate under the name \<^verbatim>\<open>gated_execute_abandon\<close>
  before the routine is invoked, the gate still awaits it when the call returns, and from
  a state that satisfies \<open>single_driver\<close> that future is still not available then: the
  call has not waited for it. No call removes anything the gate awaits. At the point
  where the routine is invoked \<open>execution_done\<close> is the future of the promise the call
  has constructed, and from a state that satisfies \<open>single_driver\<close> it is a new future
  that is not available: the routine runs as the one execution \<open>execution_done\<close>
  stands for. When the call returns the gate awaits the execution under the name given.
  For a routine that makes no call of \<open>gated_execute\<close> itself, \<open>execution_done\<close> is
  still that future when the call returns, and it is available exactly when the routine
  has ended within the call. Every call keeps \<open>single_driver\<close>, whatever the routine
  is, and whatever calls are made and whatever executions end, from a new engine on,
  \<open>single_driver\<close> holds: \<open>execution_done\<close> is ready or belongs to the execution
  started last, and every other execution that has not ended is awaited by the gate as
  an abandoned one.
\<close>

theorem gated_execute_single_driver:
  "(\<not> available (snd w) (execution_done (fst w)) \<longrightarrow>
       (''gated_execute_abandon'', execution_done (fst w))
          \<in> set (gate (fst (gated_execute_enter w)))
       \<and> (''gated_execute_abandon'', execution_done (fst w))
          \<in> set (gate (fst (gated_execute what f w)))
       \<and> (single_driver w \<longrightarrow>
            \<not> available (snd (gated_execute what f w)) (execution_done (fst w))))
   \<and> set (gate (fst w)) \<subseteq> set (gate (fst (gated_execute what f w)))
   \<and> execution_done (fst (gated_execute_enter w)) = Pending_future (next_promise (snd w))
   \<and> (single_driver w \<longrightarrow>
        execution_done (fst (gated_execute_enter w)) \<noteq> execution_done (fst w)
        \<and> \<not> available (snd (gated_execute_enter w)) (execution_done (fst (gated_execute_enter w))))
   \<and> (what, Pending_future (next_promise (snd w))) \<in> set (gate (fst (gated_execute what f w)))
   \<and> (single_driver w \<longrightarrow>
        execution_done (fst (gated_execute what (Func [] e) w))
          = Pending_future (next_promise (snd w))
        \<and> available (snd (gated_execute what (Func [] e) w))
             (execution_done (fst (gated_execute what (Func [] e) w)))
          = (e \<noteq> Stays_pending))
   \<and> (single_driver w \<longrightarrow> single_driver (gated_execute what f w))
   \<and> single_driver (run_events es (new_ProtocolV2 fa am, no_promises))"
proof -
  have abandon1: "(''gated_execute_abandon'', execution_done (fst w))
          \<in> set (gate (fst (gated_execute_enter w)))"
    if "\<not> available (snd w) (execution_done (fst w))"
    using that by (simp add: gate_enter)
  have grows: "set (gate (fst (gated_execute_enter w))) \<subseteq> set (gate (fst (gated_execute what f w)))"
    using gate_grows(2) [of "gated_execute_enter w"]
    by (cases f) (auto simp: gate_return)
  have abandon2: "(''gated_execute_abandon'', execution_done (fst w))
          \<in> set (gate (fst (gated_execute what f w)))"
    if "\<not> available (snd w) (execution_done (fst w))"
    using abandon1 [OF that] grows by blast
  have still: "\<not> available (snd (gated_execute what f w)) (execution_done (fst w))"
    if u: "\<not> available (snd w) (execution_done (fst w))" and d: "single_driver w"
  proof -
    from u obtain n where n: "execution_done (fst w) = Pending_future n"
      and nf: "n \<notin> set (fulfilled (snd w))"
      by (cases "execution_done (fst w)") (auto simp: available_def)
    from d n have "n < next_promise (snd w)"
      by (auto simp: single_driver_def)
    moreover from call_keeps(1) [OF d] have "later w (gated_execute what f w)"
      by simp
    ultimately have "n \<notin> set (fulfilled (snd (gated_execute what f w)))"
      using nf by (auto simp: later_def)
    with n show ?thesis by (simp add: available_def)
  qed
  have fresh: "execution_done (fst (gated_execute_enter w)) \<noteq> execution_done (fst w)
        \<and> \<not> available (snd (gated_execute_enter w)) (execution_done (fst (gated_execute_enter w)))"
    if "single_driver w"
  proof -
    from that have "next_promise (snd w) \<notin> set (fulfilled (snd w))"
      by (auto simp: single_driver_def)
    moreover from that have "execution_done (fst w) \<noteq> Pending_future (next_promise (snd w))"
      by (auto simp: single_driver_def)
    ultimately show ?thesis
      by (simp add: execution_done_enter promises_enter available_def)
  qed
  have plain: "execution_done (fst (gated_execute what (Func [] e) w))
          = Pending_future (next_promise (snd w))
        \<and> available (snd (gated_execute what (Func [] e) w))
             (execution_done (fst (gated_execute what (Func [] e) w)))
          = (e \<noteq> Stays_pending)"
    if "single_driver w"
  proof -
    from that have "next_promise (snd w) \<notin> set (fulfilled (snd w))"
      by (auto simp: single_driver_def)
    then show ?thesis
      by (simp add: execution_done_return execution_done_enter promises_return promises_enter
          new_promise_def available_def set_value_def)
  qed
  have always: "single_driver (run_events es (new_ProtocolV2 fa am, no_promises))"
    by (rule single_driver_run_events [OF single_driver_new])
  from abandon1 abandon2 still gate_grows(1) [of w what f] execution_done_enter [of w] fresh
    dispatched_by_call [of what w f] plain call_keeps(1) [of w what f] always
  show ?thesis by blast
qed

theorem gated_execute_single_driver_witness:
  "\<not> available (snd (gated_execute ''connecting'' (Func [] Stays_pending)
                      (new_ProtocolV2 None None, no_promises)))
       (execution_done (fst (gated_execute ''connecting'' (Func [] Stays_pending)
                      (new_ProtocolV2 None None, no_promises))))
   \<and> single_driver (gated_execute ''connecting'' (Func [] Stays_pending)
                      (new_ProtocolV2 None None, no_promises))
   \<and> gate (fst (gated_execute ''establishing''
              (Func [(''ready'', Func [] Returns_ready)] Stays_pending)
              (gated_execute ''connecting'' (Func [] Stays_pending)
                 (new_ProtocolV2 None None, no_promises))))
      = [(''connecting'', Pending_future 0),
         (''gated_execute_abandon'', Pending_future 0),
         (''gated_execute_abandon'', Pending_future 1),
         (''ready'', Pending_future 2),
         (''establishing'', Pending_future 1)]
   \<and> execution_done (fst (gated_execute ''establishing''
              (Func [(''ready'', Func [] Returns_ready)] Stays_pending)
              (gated_execute ''connecting'' (Func [] Stays_pending)
                 (new_ProtocolV2 None None, no_promises))))
      = Pending_future 2
   \<and> fulfilled (snd (gated_execute ''establishing''
              (Func [(''ready'', Func [] Returns_ready)] Stays_pending)
              (gated_execute ''connecting'' (Func [] Stays_pending)
                 (new_ProtocolV2 None None, no_promises))))
      = [2]
   \<and> \<not> available (snd (gated_execute ''establishing''
              (Func [(''ready'', Func [] Returns_ready)] Stays_pending)
              (gated_execute ''connecting'' (Func [] Stays_pending)
                 (new_ProtocolV2 None None, no_promises))))
         (execution_done (fst (gated_execute ''connecting'' (Func [] Stays_pending)
                 (new_ProtocolV2 None None, no_promises))))
   \<and> single_driver (gated_execute ''establishing''
              (Func [(''ready'', Func [] Returns_ready)] Stays_pending)
              (gated_execute ''connecting'' (Func [] Stays_pending)
                 (new_ProtocolV2 None None, no_promises)))"
proof -
  let ?w = "gated_execute ''connecting'' (Func [] Stays_pending)
              (new_ProtocolV2 None None, no_promises)"
  let ?f = "Func [(''ready'', Func [] Returns_ready)] Stays_pending"
  have w: "?w = ((new_ProtocolV2 None None)
                   \<lparr>gate := [(''connecting'', Pending_future 0)],
                    execution_done := Pending_future 0\<rparr>,
                 \<lparr>next_promise = 1, fulfilled = []\<rparr>)"
    by (simp add: gated_execute_enter_def gated_execute_return_def dispatch_in_background_def
        new_promise_def get_future_def available_def now_def no_promises_def
        new_ProtocolV2_def Let_def)
  have e: "execution_done (fst ?w) = Pending_future 0"
    by (simp only: w) simp
  have u: "\<not> available (snd ?w) (execution_done (fst ?w))"
    by (simp only: w) (simp add: available_def)
  have d: "single_driver ?w"
    using call_keeps(1) [OF single_driver_new] by blast
  have r: "gated_execute ''establishing'' ?f ?w
      = ((new_ProtocolV2 None None)
           \<lparr>gate := [(''connecting'', Pending_future 0),
                     (''gated_execute_abandon'', Pending_future 0),
                     (''gated_execute_abandon'', Pending_future 1),
                     (''ready'', Pending_future 2),
                     (''establishing'', Pending_future 1)],
            execution_done := Pending_future 2\<rparr>,
         \<lparr>next_promise = 3, fulfilled = [2]\<rparr>)"
    unfolding w
    by (simp add: gated_execute_enter_def gated_execute_return_def dispatch_in_background_def
        new_promise_def get_future_def set_value_def available_def new_ProtocolV2_def Let_def)
  have g: "gate (fst (gated_execute ''establishing'' ?f ?w))
      = [(''connecting'', Pending_future 0),
         (''gated_execute_abandon'', Pending_future 0),
         (''gated_execute_abandon'', Pending_future 1),
         (''ready'', Pending_future 2),
         (''establishing'', Pending_future 1)]"
    by (simp only: r) simp
  have x: "execution_done (fst (gated_execute ''establishing'' ?f ?w)) = Pending_future 2"
    by (simp only: r) simp
  have fl: "fulfilled (snd (gated_execute ''establishing'' ?f ?w)) = [2]"
    by (simp only: r) simp
  note inst = gated_execute_single_driver
    [where w = ?w and what = "''establishing''" and f = ?f and es = "[]" and fa = None
       and am = None and e = Returns_ready]
  from inst u d
  have "\<not> available (snd (gated_execute ''establishing'' ?f ?w)) (execution_done (fst ?w))
        \<and> single_driver (gated_execute ''establishing'' ?f ?w)"
    by blast
  with u d g x fl show ?thesis by blast
qed

section \<open>Properties of the operations modelled from the specification\<close>

subsection \<open>Closing\<close>

lemma do_close_closing: "state (fst w) = CLOSING \<Longrightarrow> do_close r w = w"
  by (simp add: do_close_def)

lemma state_do_close: "state (fst (do_close r w)) = CLOSING"
  by (simp add: do_close_def Let_def)

lemma do_close_twice: "do_close r' (do_close r w) = do_close r w"
  by (rule do_close_closing [OF state_do_close])

lemma frame_assembler_do_close:
  "frame_assembler (fst (do_close r w)) = frame_assembler (fst w)"
  by (simp add: do_close_def Let_def)

lemma gate_do_close: "gate (fst (do_close r w)) = gate (fst w)"
  by (simp add: do_close_def Let_def)

lemma do_close_first:
  "state (fst w) \<noteq> CLOSING \<Longrightarrow>
     closed (fst (do_close r w))
     \<and> last_dur (protocol_timer (fst (do_close r w))) = 0
     \<and> as (protocol_timer (fst (do_close r w))) = None
     \<and> closed_clean_fut (fst (do_close r w)) \<noteq> None"
  by (simp add: do_close_def Let_def cancel_def last_dur_def split: option.splits)

lemma gate_drained_set_value:
  "gate_drained (p, ps) \<Longrightarrow> gate_drained (p, set_value n ps)"
  by (auto simp: gate_drained_def list_all_iff available_def set_value_def split: future.splits)

lemma gate_promise_bound:
  "list_all (\<lambda>e. case snd e of Ready_future \<Rightarrow> True | Pending_future k \<Rightarrow> k < m) g
     = (\<forall>k. Pending_future k \<in> set (map snd g) \<longrightarrow> k < m)"
  by (induction g) (auto split: future.splits)

lemma closing_inv_do_close:
  assumes "closing_inv fa x"
  shows "closing_inv fa (do_close r (fst x), snd x)"
proof (cases "state (fst (fst x)) = CLOSING")
  case True
  with assms show ?thesis by (simp add: do_close_closing)
next
  case False
  with assms have n: "closed_clean_fut (fst (fst x)) = None"
    by (auto simp: closing_inv_def Let_def split: option.splits future.splits)
  from assms False n show ?thesis
    unfolding closing_inv_def Let_def gate_promise_bound
    by (auto simp: do_close_def Let_def new_promise_def get_shared_future_def
        set_value_def list_all_iff less_Suc_eq split: option.splits)
qed

lemma closing_inv_work_done:
  assumes "closing_inv fa x"
  shows "closing_inv fa (closing_step (Work_done n) x)"
proof (cases "Pending_future n \<in> set (map snd (gate (fst (fst x))))")
  case False
  with assms show ?thesis by simp
next
  case True
  with assms have lt: "n < next_promise (snd (fst x))"
    unfolding closing_inv_def Let_def gate_promise_bound by blast
  from assms True lt show ?thesis
    unfolding closing_inv_def Let_def gate_promise_bound
    by (auto simp: list_all_iff set_value_def gate_drained_def available_def
        split: option.splits future.splits if_splits)
qed

lemma closing_inv_close_clean:
  assumes "closing_inv fa x"
  shows "closing_inv fa (close_clean x)"
proof (cases "closed_clean_fut (fst (fst x))")
  case None
  with assms show ?thesis by (simp add: close_clean_def)
next
  case (Some f)
  show ?thesis
  proof (cases f)
    case Ready_future
    with Some assms show ?thesis by (simp add: close_clean_def)
  next
    case (Pending_future pr)
    show ?thesis
    proof (cases "pr \<in> set (fulfilled (snd (fst x))) \<or> \<not> gate_drained (fst x)")
      case True
      with Some Pending_future assms show ?thesis by (auto simp: close_clean_def)
    next
      case False
      with Some Pending_future assms show ?thesis
        unfolding closing_inv_def Let_def gate_promise_bound
        by (auto simp: close_clean_def list_all_iff set_value_def torn_down_def
            gate_drained_def available_def split: option.splits future.splits)
    qed
  qed
qed

lemma closing_inv_step: "closing_inv fa x \<Longrightarrow> closing_inv fa (closing_step e x)"
proof (cases e)
  case (Do_close r)
  assume "closing_inv fa x"
  with Do_close show ?thesis by (simp add: closing_inv_do_close)
next
  case (Work_done n)
  assume "closing_inv fa x"
  with Work_done show ?thesis by (simp only: closing_inv_work_done)
next
  case Close_clean
  assume "closing_inv fa x"
  with Close_clean show ?thesis by (simp add: closing_inv_close_clean)
qed

lemma closing_inv_run: "closing_inv fa x \<Longrightarrow> closing_inv fa (run_closing es x)"
  by (induction es arbitrary: x) (simp_all add: closing_inv_step)


lemma closing_inv_new: "closing_inv fa ((new_ProtocolV2 fa am, no_promises), [])"
  by (simp add: closing_inv_def new_ProtocolV2_def no_promises_def)

lemma closing_inv_outcome:
  assumes "closing_inv fa x"
  shows "closed (fst (fst x)) = (state (fst (fst x)) = CLOSING)"
    and "snd x = [] \<and> frame_assembler (fst (fst x)) = fa
         \<or> snd x = torn_down fa \<and> frame_assembler (fst (fst x)) = None
            \<and> state (fst (fst x)) = CLOSING \<and> gate_drained (fst x)"
    and "state (fst (fst x)) = CLOSING \<and> gate_drained (fst x) \<longrightarrow>
           snd (close_clean x) = torn_down fa
           \<and> frame_assembler (fst (fst (close_clean x))) = None"
proof -
  from assms show "closed (fst (fst x)) = (state (fst (fst x)) = CLOSING)"
    by (simp add: closing_inv_def Let_def)
  from assms show "snd x = [] \<and> frame_assembler (fst (fst x)) = fa
         \<or> snd x = torn_down fa \<and> frame_assembler (fst (fst x)) = None
            \<and> state (fst (fst x)) = CLOSING \<and> gate_drained (fst x)"
    by (auto simp: closing_inv_def Let_def split: option.splits future.splits if_splits)
  from assms show "state (fst (fst x)) = CLOSING \<and> gate_drained (fst x) \<longrightarrow>
           snd (close_clean x) = torn_down fa
           \<and> frame_assembler (fst (fst (close_clean x))) = None"
    by (auto simp: closing_inv_def close_clean_def Let_def
        split: option.splits future.splits if_splits)
qed

text \<open>
  C5. \<open>do_close\<close> is idempotent. On an engine in \<open>CLOSING\<close> a call changes nothing,
  and so does a second call after a first, on any engine. Every call leaves the engine
  in \<open>CLOSING\<close> and does not touch the frame assembler itself; the first one marks the
  engine closed, cancels the timer and makes \<open>closed_clean_fut\<close> valid. A new engine
  satisfies \<open>closing_inv\<close>. From an engine that satisfies it, after calls of
  \<open>do_close\<close>, ends of work the gate awaits and looks at the wait of the closing, in
  any order and number: the engine is closed exactly when it is in \<open>CLOSING\<close>; either
  nothing has been torn down and the engine owns the frame assembler it was constructed
  with, or that frame assembler has been torn down, once, the engine owns none, is in
  \<open>CLOSING\<close> and the gate has no outstanding work; and when the engine is in
  \<open>CLOSING\<close> and the gate has no outstanding work, the next look at the wait leaves
  the frame assembler torn down once and released.
\<close>

theorem do_close_idempotent:
  "(state (fst w) = CLOSING \<longrightarrow> do_close r w = w)
   \<and> do_close r' (do_close r w) = do_close r w
   \<and> state (fst (do_close r w)) = CLOSING
   \<and> frame_assembler (fst (do_close r w)) = frame_assembler (fst w)
   \<and> (state (fst w) \<noteq> CLOSING \<longrightarrow>
        closed (fst (do_close r w))
        \<and> last_dur (protocol_timer (fst (do_close r w))) = 0
        \<and> as (protocol_timer (fst (do_close r w))) = None
        \<and> closed_clean_fut (fst (do_close r w)) \<noteq> None)
   \<and> closing_inv fa ((new_ProtocolV2 fa am, no_promises), [])
   \<and> (closing_inv fa (v, []) \<longrightarrow>
        closed (fst (fst (run_closing es (v, []))))
          = (state (fst (fst (run_closing es (v, [])))) = CLOSING)
        \<and> (snd (run_closing es (v, [])) = []
             \<and> frame_assembler (fst (fst (run_closing es (v, [])))) = fa
           \<or> snd (run_closing es (v, [])) = torn_down fa
             \<and> frame_assembler (fst (fst (run_closing es (v, [])))) = None
             \<and> state (fst (fst (run_closing es (v, [])))) = CLOSING
             \<and> gate_drained (fst (run_closing es (v, []))))
        \<and> (state (fst (fst (run_closing es (v, [])))) = CLOSING
             \<and> gate_drained (fst (run_closing es (v, []))) \<longrightarrow>
           snd (close_clean (run_closing es (v, []))) = torn_down fa
           \<and> frame_assembler (fst (fst (close_clean (run_closing es (v, []))))) = None))"
proof -
  have reach: "closed (fst (fst (run_closing es (v, []))))
          = (state (fst (fst (run_closing es (v, [])))) = CLOSING)
        \<and> (snd (run_closing es (v, [])) = []
             \<and> frame_assembler (fst (fst (run_closing es (v, [])))) = fa
           \<or> snd (run_closing es (v, [])) = torn_down fa
             \<and> frame_assembler (fst (fst (run_closing es (v, [])))) = None
             \<and> state (fst (fst (run_closing es (v, [])))) = CLOSING
             \<and> gate_drained (fst (run_closing es (v, []))))
        \<and> (state (fst (fst (run_closing es (v, [])))) = CLOSING
             \<and> gate_drained (fst (run_closing es (v, []))) \<longrightarrow>
           snd (close_clean (run_closing es (v, []))) = torn_down fa
           \<and> frame_assembler (fst (fst (close_clean (run_closing es (v, []))))) = None)"
    if "closing_inv fa (v, [])"
    using closing_inv_outcome [OF closing_inv_run [OF that, of es]] by blast
  from reach do_close_closing [of w r] do_close_twice [of r' r w] state_do_close [of r w]
    frame_assembler_do_close [of r w] do_close_first [of w r] closing_inv_new [of fa am]
  show ?thesis by blast
qed

theorem do_close_idempotent_witness:
  "closing_inv (Some 7)
     (((new_ProtocolV2 (Some 7) (Some 1))
         \<lparr>gate := [(''connecting'', Pending_future 0)], state := CONNECTING\<rparr>,
       \<lparr>next_promise = 1, fulfilled = []\<rparr>), [])
   \<and> run_closing [Do_close False, Do_close True, Close_clean]
       (((new_ProtocolV2 (Some 7) (Some 1))
           \<lparr>gate := [(''connecting'', Pending_future 0)], state := CONNECTING\<rparr>,
         \<lparr>next_promise = 1, fulfilled = []\<rparr>), [])
     = (((new_ProtocolV2 (Some 7) (Some 1))
           \<lparr>gate := [(''connecting'', Pending_future 0)], state := CLOSING,
            closed := True, closed_clean_fut := Some (Pending_future 1)\<rparr>,
         \<lparr>next_promise = 2, fulfilled = []\<rparr>), [])
   \<and> run_closing [Do_close False, Do_close True, Close_clean, Work_done 0, Close_clean,
                   Do_close False, Close_clean]
       (((new_ProtocolV2 (Some 7) (Some 1))
           \<lparr>gate := [(''connecting'', Pending_future 0)], state := CONNECTING\<rparr>,
         \<lparr>next_promise = 1, fulfilled = []\<rparr>), [])
     = (((new_ProtocolV2 (Some 7) (Some 1))
           \<lparr>gate := [(''connecting'', Pending_future 0)], state := CLOSING,
            closed := True, closed_clean_fut := Some (Pending_future 1),
            frame_assembler := None\<rparr>,
         \<lparr>next_promise = 2, fulfilled = [1, 0]\<rparr>), [7])
   \<and> snd (close_clean (run_closing [Do_close False, Work_done 0]
       (((new_ProtocolV2 (Some 7) (Some 1))
           \<lparr>gate := [(''connecting'', Pending_future 0)], state := CONNECTING\<rparr>,
         \<lparr>next_promise = 1, fulfilled = []\<rparr>), []))) = [7]
   \<and> closed (fst (do_close False
       ((new_ProtocolV2 (Some 7) (Some 1))
           \<lparr>gate := [(''connecting'', Pending_future 0)], state := CONNECTING\<rparr>,
         \<lparr>next_promise = 1, fulfilled = []\<rparr>)))
   \<and> do_close True (do_close False
       ((new_ProtocolV2 (Some 7) (Some 1))
           \<lparr>gate := [(''connecting'', Pending_future 0)], state := CONNECTING\<rparr>,
         \<lparr>next_promise = 1, fulfilled = []\<rparr>))
     = do_close False
       ((new_ProtocolV2 (Some 7) (Some 1))
           \<lparr>gate := [(''connecting'', Pending_future 0)], state := CONNECTING\<rparr>,
         \<lparr>next_promise = 1, fulfilled = []\<rparr>)"
proof -
  let ?v = "((new_ProtocolV2 (Some 7) (Some 1))
               \<lparr>gate := [(''connecting'', Pending_future 0)], state := CONNECTING\<rparr>,
             \<lparr>next_promise = 1, fulfilled = []\<rparr>)"
  have i: "closing_inv (Some 7) (?v, [])"
    by (simp add: closing_inv_def new_ProtocolV2_def)
  have a: "run_closing [Do_close False, Do_close True, Close_clean] (?v, [])
     = (((new_ProtocolV2 (Some 7) (Some 1))
           \<lparr>gate := [(''connecting'', Pending_future 0)], state := CLOSING,
            closed := True, closed_clean_fut := Some (Pending_future 1)\<rparr>,
         \<lparr>next_promise = 2, fulfilled = []\<rparr>), [])"
    by (simp add: do_close_def close_clean_def gate_drained_def available_def new_promise_def
        get_shared_future_def cancel_def new_ProtocolV2_def new_Timer_def Let_def)
  have b: "run_closing [Do_close False, Do_close True, Close_clean, Work_done 0, Close_clean,
                   Do_close False, Close_clean] (?v, [])
     = (((new_ProtocolV2 (Some 7) (Some 1))
           \<lparr>gate := [(''connecting'', Pending_future 0)], state := CLOSING,
            closed := True, closed_clean_fut := Some (Pending_future 1),
            frame_assembler := None\<rparr>,
         \<lparr>next_promise = 2, fulfilled = [1, 0]\<rparr>), [7])"
    by (simp add: do_close_def close_clean_def gate_drained_def available_def new_promise_def
        get_shared_future_def set_value_def torn_down_def cancel_def new_ProtocolV2_def
        new_Timer_def Let_def)
  have s: "state (fst (fst (run_closing [Do_close False, Work_done 0] (?v, [])))) = CLOSING"
    by (simp add: do_close_def new_promise_def Let_def set_value_def)
  have g: "gate_drained (fst (run_closing [Do_close False, Work_done 0] (?v, [])))"
    by (simp add: do_close_def new_promise_def Let_def set_value_def gate_drained_def
        available_def new_ProtocolV2_def)
  from do_close_idempotent
    [where v = ?v and fa = "Some 7" and es = "[Do_close False, Work_done 0]"] i s g
  have "snd (close_clean (run_closing [Do_close False, Work_done 0] (?v, [])))
          = torn_down (Some 7)"
    by blast
  then have c: "snd (close_clean (run_closing [Do_close False, Work_done 0] (?v, []))) = [7]"
    by (simp only: torn_down_def option.case)
  have o: "state (fst ?v) \<noteq> CLOSING"
    by (simp add: new_ProtocolV2_def)
  from do_close_idempotent [where w = ?v and r = False] o
  have d: "closed (fst (do_close False ?v))"
    by blast
  have t: "state (fst (do_close False ?v)) = CLOSING"
    by (rule state_do_close)
  from do_close_idempotent [where w = "do_close False ?v" and r = True] t
  have n: "do_close True (do_close False ?v) = do_close False ?v"
    by blast
  from i a b c d n show ?thesis by blast
qed

subsection \<open>Reconnection\<close>

lemma server_reconnect_first_match:
  "\<forall>x \<in> set pre. \<not> cookies_match r x \<Longrightarrow> cookies_match r e \<Longrightarrow>
     server_reconnect beyond full (pre @ e # es) r
       = (fst (reconnect_existing beyond r e), pre @ snd (reconnect_existing beyond r e) # es)"
  by (induction pre) simp_all

lemma unat_succ_of_eq:
  fixes a b :: "64 word"
  assumes "unat a = unat b + 1"
  shows "b + 1 = a" and "unat (b + 1) = unat b + 1"
proof -
  have "unat b + 1 < 2 ^ 64"
    using unsigned_less [of a, where 'a = nat] assms by simp
  then show u: "unat (b + 1) = unat b + 1"
    by (simp add: unat_word_ariths)
  with assms show "b + 1 = a"
    by (simp add: word_unat_eq_iff)
qed

text \<open>
  C2. Let \<open>e\<close> be the engine the passive side holds for the cookies of a reconnect
  attempt. When the incoming \<open>connect_seq\<close> is the stored one plus one, the attempt is
  accepted and the stored \<open>connect_seq\<close> becomes the stored one plus one, which is one
  more as a number; no other engine changes. When the incoming \<open>connect_seq\<close> is at most
  the stored one, the reply is RETRY with the stored value and no engine changes: the
  attempt is not accepted.
\<close>

theorem reconnect_connect_seq:
  assumes "\<forall>x \<in> set pre. \<not> cookies_match r x" and "cookies_match r e"
  shows "(unat (rc_connect_seq r) = unat (connect_seq e) + 1 \<longrightarrow>
            server_reconnect beyond full (pre @ e # es) r
              = (Reconnect_ok, pre @ e\<lparr>connect_seq := connect_seq e + 1\<rparr> # es)
            \<and> unat (connect_seq e + 1) = unat (connect_seq e) + 1)
         \<and> (rc_connect_seq r \<le> connect_seq e \<longrightarrow>
            server_reconnect beyond full (pre @ e # es) r
              = (Retry (connect_seq e), pre @ e # es))"
proof (intro conjI impI)
  assume a: "unat (rc_connect_seq r) = unat (connect_seq e) + 1"
  then show "server_reconnect beyond full (pre @ e # es) r
      = (Reconnect_ok, pre @ e\<lparr>connect_seq := connect_seq e + 1\<rparr> # es)"
    by (simp add: server_reconnect_first_match [OF assms] reconnect_existing_def)
  from a show "unat (connect_seq e + 1) = unat (connect_seq e) + 1"
    by (rule unat_succ_of_eq)
next
  assume b: "rc_connect_seq r \<le> connect_seq e"
  then have "unat (rc_connect_seq r) \<noteq> unat (connect_seq e) + 1"
    by (simp add: word_le_nat_alt)
  with b show "server_reconnect beyond full (pre @ e # es) r
      = (Retry (connect_seq e), pre @ e # es)"
    by (simp add: server_reconnect_first_match [OF assms] reconnect_existing_def)
qed

theorem reconnect_connect_seq_witness:
  "server_reconnect (\<lambda>r e. (Wait_reply, e)) True
       [(new_ProtocolV2 None None)\<lparr>client_cookie := 9, server_cookie := 8\<rparr>,
        (new_ProtocolV2 None None)\<lparr>client_cookie := 1, server_cookie := 2, connect_seq := 5\<rparr>]
       \<lparr>rc_client_cookie = 1, rc_server_cookie = 2, rc_connect_seq = 6\<rparr>
     = (Reconnect_ok,
        [(new_ProtocolV2 None None)\<lparr>client_cookie := 9, server_cookie := 8\<rparr>,
         (new_ProtocolV2 None None)\<lparr>client_cookie := 1, server_cookie := 2, connect_seq := 6\<rparr>])
   \<and> server_reconnect (\<lambda>r e. (Wait_reply, e)) True
       [(new_ProtocolV2 None None)\<lparr>client_cookie := 9, server_cookie := 8\<rparr>,
        (new_ProtocolV2 None None)\<lparr>client_cookie := 1, server_cookie := 2, connect_seq := 5\<rparr>]
       \<lparr>rc_client_cookie = 1, rc_server_cookie = 2, rc_connect_seq = 5\<rparr>
     = (Retry 5,
        [(new_ProtocolV2 None None)\<lparr>client_cookie := 9, server_cookie := 8\<rparr>,
         (new_ProtocolV2 None None)\<lparr>client_cookie := 1, server_cookie := 2, connect_seq := 5\<rparr>])"
proof -
  let ?other = "(new_ProtocolV2 None None)\<lparr>client_cookie := 9, server_cookie := 8\<rparr>"
  let ?e = "(new_ProtocolV2 None None)\<lparr>client_cookie := 1, server_cookie := 2, connect_seq := 5\<rparr>"
  let ?next = "\<lparr>rc_client_cookie = 1, rc_server_cookie = 2, rc_connect_seq = 6\<rparr>"
  let ?old = "\<lparr>rc_client_cookie = 1, rc_server_cookie = 2, rc_connect_seq = 5\<rparr>"
  have n1: "\<forall>x \<in> set [?other]. \<not> cookies_match ?next x"
    by (simp add: cookies_match_def new_ProtocolV2_def)
  have n2: "\<forall>x \<in> set [?other]. \<not> cookies_match ?old x"
    by (simp add: cookies_match_def new_ProtocolV2_def)
  have m1: "cookies_match ?next ?e"
    by (simp add: cookies_match_def new_ProtocolV2_def)
  have m2: "cookies_match ?old ?e"
    by (simp add: cookies_match_def new_ProtocolV2_def)
  have s1: "unat (rc_connect_seq ?next) = unat (connect_seq ?e) + 1"
    by simp
  have s2: "rc_connect_seq ?old \<le> connect_seq ?e"
    by simp
  from reconnect_connect_seq [OF n1 m1, of "\<lambda>r e. (Wait_reply, e)" True "[]"] s1
       reconnect_connect_seq [OF n2 m2, of "\<lambda>r e. (Wait_reply, e)" True "[]"] s2
  show ?thesis by simp
qed

end
